theory Spec2Isabelle
  imports Complex_Main "HOL-Library.AList" "HOL-Library.Char_ord" "HOL-Library.List_Lexorder"
begin

section \<open>Data model (features/editor/state.ts)\<close>

text \<open>
  Node ids are the strings \<open>createId\<close> returns. A JavaScript record
  \<open>Record<string, T>\<close> is an association list in insertion order with pairwise
  distinct keys: \<open>r[k]\<close> is \<open>map_of r k\<close>, \<open>r[k] = v\<close> is \<open>AList.update k v r\<close>
  (an existing key keeps its place, a new key goes last) and \<open>delete r[k]\<close> is
  \<open>AList.delete k r\<close>.  A JavaScript \<open>Set<string>\<close> is the list of its members in
  insertion order.
\<close>

type_synonym NodeId = string

datatype NodeType = TObject | TArray | TString | TNumber | TBoolean | TNull

text \<open>A JavaScript number: a finite double (given by its rational value), NaN or an infinity.\<close>

datatype jsnumber = Finite rat | NaN | PosInfinity | NegInfinity

datatype ObjectEntry = Entry (key: string) (childId: NodeId)

datatype JsonNode =
    ObjectNode (node_id: NodeId) (entries: "ObjectEntry list")
  | ArrayNode (node_id: NodeId) (items: "NodeId list")
  | StringNode (node_id: NodeId) string
  | NumberNode (node_id: NodeId) jsnumber
  | BooleanNode (node_id: NodeId) bool
  | NullNode (node_id: NodeId)

type_synonym NodeMap = "(NodeId \<times> JsonNode) list"

record DocumentState =
  rootId :: NodeId
  nodes :: NodeMap

text \<open>The plain values \<open>JSON.parse\<close> produces; an object is the list of its own
  properties in enumeration order.\<close>

datatype jsvalue =
    VNull
  | VBoolean bool
  | VNumber jsnumber
  | VString string
  | VArray "jsvalue list"
  | VObject "(string \<times> jsvalue) list"

text \<open>The payload of an \<open>EDIT_PRIMITIVE\<close> action: \<open>string | number | boolean | null\<close>.\<close>

datatype primitive = PString string | PNumber jsnumber | PBoolean bool | PNull

record ParseError =
  message :: string
  line :: "nat option"
  column :: "nat option"

datatype NoticeType = NSuccess | NError | NInfo

datatype Notice = Notice NoticeType string

datatype OutputMode = Pretty | Minified

datatype SnippetMeta = SnippetMeta string string jsnumber

record HistoryEntry =
  h_doc :: "DocumentState option"
  h_rawText :: string
  h_expanded :: "NodeId list"
  h_selectedId :: "NodeId option"
  h_preSearchExpanded :: "NodeId list option"
  h_anchorPath :: "NodeId list"

record EditorState =
  rawText :: string
  lastValidText :: string
  doc :: "DocumentState option"
  parseError :: "ParseError option"
  expanded :: "NodeId list"
  selectedId :: "NodeId option"
  searchQuery :: string
  searchMatches :: "NodeId list"
  activeMatch :: int
  searchFilterOnly :: bool
  outputMode :: OutputMode
  indent :: jsnumber
  undoStack :: "HistoryEntry list"
  redoStack :: "HistoryEntry list"
  autoParse :: bool
  autoSaveEnabled :: bool
  snippets :: "SnippetMeta list"
  snippetContents :: "(string \<times> string) list"
  notice :: "Notice option"
  preSearchExpanded :: "NodeId list option"
  anchorPath :: "NodeId list"

section \<open>The JavaScript runtime\<close>

text \<open>
  The built-ins the code calls are parameters of the model.  \<open>JSON_parse\<close> returns the
  parsed value or what it throws; \<open>JSON_stringify v (Some n)\<close> is
  \<open>JSON.stringify(v, null, n)\<close> and \<open>JSON_stringify v None\<close> is \<open>JSON.stringify(v)\<close>;
  \<open>numberToString\<close> is \<open>String(n)\<close> for a number.  \<open>localeCompare\<close> is a consistent
  comparator, so it compares collation keys of a linear order: \<open>a.localeCompare(b)\<close> is
  negative, zero or positive as \<open>collationKey a\<close> is below, equal to or above
  \<open>collationKey b\<close>.
\<close>

datatype thrown = ErrorObject string | OtherThrown

record 'k runtime =
  JSON_parse :: "string \<Rightarrow> thrown + jsvalue"
  JSON_stringify :: "jsvalue \<Rightarrow> jsnumber option \<Rightarrow> string"
  toLowerCase :: "string \<Rightarrow> string"
  trim :: "string \<Rightarrow> string"
  numberToString :: "jsnumber \<Rightarrow> string"
  collationKey :: "string \<Rightarrow> 'k"

text \<open>\<open>s.includes(sub)\<close>: \<open>sub\<close> occurs in \<open>s\<close> as a contiguous substring.\<close>

fun js_includes :: "string \<Rightarrow> string \<Rightarrow> bool" where
  "js_includes [] sub = (sub = [])"
| "js_includes (c # cs) sub = (take (length sub) (c # cs) = sub \<or> js_includes cs sub)"

text \<open>Truthiness of a string: only the empty string is falsy.\<close>

definition truthy :: "string \<Rightarrow> bool" where
  "truthy s = (s \<noteq> [])"

text \<open>Set operations on a \<open>Set<string>\<close>: \<open>add\<close>, and \<open>new Set(iterable)\<close>.\<close>

definition setAdd :: "NodeId \<Rightarrow> NodeId list \<Rightarrow> NodeId list" where
  "setAdd x s = (if x \<in> set s then s else s @ [x])"

definition newSet :: "NodeId list \<Rightarrow> NodeId list" where
  "newSet xs = fold setAdd xs []"

text \<open>\<open>xs[i]\<close> for a JavaScript array: \<open>undefined\<close> out of range.\<close>

definition at_index :: "'a list \<Rightarrow> int \<Rightarrow> 'a option" where
  "at_index xs i = (if 0 \<le> i \<and> i < int (length xs) then Some (xs ! nat i) else None)"

text \<open>\<open>xs.indexOf(x)\<close>: the first position of \<open>x\<close>, or \<open>-1\<close>.\<close>

fun indexOf :: "'a list \<Rightarrow> 'a \<Rightarrow> int" where
  "indexOf [] x = -1"
| "indexOf (y # ys) x = (if y = x then 0 else (let i = indexOf ys x in if i < 0 then -1 else i + 1))"

text \<open>A \<open>forEach\<close> whose body may fail to return: the state is threaded through the
  elements in order, and the loop does not return when one body does not.\<close>

fun forEachM :: "('a \<Rightarrow> 's \<Rightarrow> 's option) \<Rightarrow> 'a list \<Rightarrow> 's \<Rightarrow> 's option" where
  "forEachM f [] s = Some s"
| "forEachM f (x # xs) s = (case f x s of None \<Rightarrow> None | Some s' \<Rightarrow> forEachM f xs s')"

text \<open>\<open>xs.map(f)\<close> for an \<open>f\<close> that may fail to return.\<close>

fun mapM :: "('a \<Rightarrow> 'b option) \<Rightarrow> 'a list \<Rightarrow> 'b list option" where
  "mapM f [] = Some []"
| "mapM f (x # xs) =
     (case f x of None \<Rightarrow> None
      | Some y \<Rightarrow> (case mapM f xs of None \<Rightarrow> None | Some ys \<Rightarrow> Some (y # ys)))"

subsection \<open>Property assignment on a plain object\<close>

text \<open>
  \<open>obj[k] = v\<close> on an object literal.  The key \<open>__proto__\<close> is the accessor inherited from
  \<open>Object.prototype\<close>: the assignment calls its setter and creates no own property.  An
  existing own property keeps its place.  A new property whose key is an array index (a
  canonical decimal numeral below \<open>2^32 - 1\<close>) is enumerated in ascending numeric order
  before all other keys; any other new key is enumerated last.
\<close>

definition isDigit :: "char \<Rightarrow> bool" where
  "isDigit c = (c \<in> set ''0123456789'')"

definition digitValue :: "char \<Rightarrow> nat" where
  "digitValue c = length (takeWhile (\<lambda>d. d \<noteq> c) ''0123456789'')"

definition digitsValue :: "string \<Rightarrow> nat" where
  "digitsValue ds = fold (\<lambda>c n. 10 * n + digitValue c) ds 0"

definition isArrayIndex :: "string \<Rightarrow> bool" where
  "isArrayIndex k =
     (k \<noteq> [] \<and> list_all isDigit k \<and> (k = ''0'' \<or> hd k \<noteq> CHR ''0'') \<and> digitsValue k < 2 ^ 32 - 1)"

fun insertIndexed :: "string \<Rightarrow> 'v \<Rightarrow> (string \<times> 'v) list \<Rightarrow> (string \<times> 'v) list" where
  "insertIndexed k v [] = [(k, v)]"
| "insertIndexed k v ((k', v') # rest) =
     (if isArrayIndex k' \<and> digitsValue k' < digitsValue k
      then (k', v') # insertIndexed k v rest
      else (k, v) # (k', v') # rest)"

definition setProperty :: "(string \<times> 'v) list \<Rightarrow> string \<Rightarrow> 'v \<Rightarrow> (string \<times> 'v) list" where
  "setProperty obj k v =
     (if k = ''__proto__'' then obj
      else if k \<in> fst ` set obj then AList.update k v obj
      else if isArrayIndex k then insertIndexed k v obj
      else obj @ [(k, v)])"

section \<open>Parsing\<close>

text \<open>The regular expression \<open>/position (\d+)/i\<close>: the leftmost place where the literal
  matches, letters in either case, followed by at least one digit; the digits are taken
  greedily.\<close>

fun matchLiteral :: "(char \<times> char) list \<Rightarrow> string \<Rightarrow> string option" where
  "matchLiteral [] s = Some s"
| "matchLiteral ((l, u) # ps) [] = None"
| "matchLiteral ((l, u) # ps) (c # cs) = (if c = l \<or> c = u then matchLiteral ps cs else None)"

definition matchHere :: "string \<Rightarrow> nat option" where
  "matchHere s =
     (case matchLiteral (zip ''position '' ''POSITION '') s of
        None \<Rightarrow> None
      | Some rest \<Rightarrow>
          (let ds = takeWhile isDigit rest in if ds = [] then None else Some (digitsValue ds)))"

fun positionMatch :: "string \<Rightarrow> nat option" where
  "positionMatch [] = None"
| "positionMatch (c # cs) =
     (case matchHere (c # cs) of Some n \<Rightarrow> Some n | None \<Rightarrow> positionMatch cs)"

text \<open>\<open>s.split('\n')\<close>: never empty.\<close>

fun splitLines :: "string \<Rightarrow> string list" where
  "splitLines [] = [[]]"
| "splitLines (c # cs) =
     (if c = CHR 0x0A then [] # splitLines cs
      else (case splitLines cs of l # ls \<Rightarrow> (c # l) # ls | [] \<Rightarrow> [[c]]))"

definition getLineColumn :: "string \<Rightarrow> nat \<Rightarrow> nat \<times> nat" where
  "getLineColumn text index =
     (let front = take index text;
          lines = splitLines front
      in (length lines, length (last lines) + 1))"

definition parseJson :: "'k runtime \<Rightarrow> string \<Rightarrow> ParseError + jsvalue" where
  "parseJson rt text =
     (case JSON_parse rt text of
        Inr v \<Rightarrow> Inr v
      | Inl e \<Rightarrow>
          (let msg = (case e of ErrorObject m \<Rightarrow> m | OtherThrown \<Rightarrow> ''Unable to parse JSON'') in
           case positionMatch msg of
             Some index \<Rightarrow>
               (let (l, c) = getLineColumn text index
                in Inl \<lparr>message = msg, line = Some l, column = Some c\<rparr>)
           | None \<Rightarrow> Inl \<lparr>message = msg, line = None, column = None\<rparr>))"

section \<open>Node store: building a document and reading it back\<close>

text \<open>
  \<open>createId\<close> draws a random UUID.  The draws of one transition are a parameter
  \<open>ids\<close>: the \<open>n\<close>-th call of \<open>createId\<close> returns \<open>ids n\<close>.  \<open>buildNode\<close> threads the
  number of draws made and the node map; it draws the node's id first, builds the children
  in source order and stores the node last.
\<close>

fun buildNode :: "(nat \<Rightarrow> NodeId) \<Rightarrow> jsvalue \<Rightarrow> nat \<times> NodeMap \<Rightarrow> NodeId \<times> (nat \<times> NodeMap)"
and buildItems :: "(nat \<Rightarrow> NodeId) \<Rightarrow> jsvalue list \<Rightarrow> nat \<times> NodeMap \<Rightarrow> NodeId list \<times> (nat \<times> NodeMap)"
and buildEntries ::
  "(nat \<Rightarrow> NodeId) \<Rightarrow> (string \<times> jsvalue) list \<Rightarrow> nat \<times> NodeMap \<Rightarrow> ObjectEntry list \<times> (nat \<times> NodeMap)"
where
  "buildNode ids (VArray vs) (n, ns) =
     (let i = ids n;
          (childIds, (n', ns')) = buildItems ids vs (Suc n, ns)
      in (i, (n', AList.update i (ArrayNode i childIds) ns')))"
| "buildNode ids VNull (n, ns) =
     (let i = ids n in (i, (Suc n, AList.update i (NullNode i) ns)))"
| "buildNode ids (VObject kvs) (n, ns) =
     (let i = ids n;
          (es, (n', ns')) = buildEntries ids kvs (Suc n, ns)
      in (i, (n', AList.update i (ObjectNode i es) ns')))"
| "buildNode ids (VNumber x) (n, ns) =
     (let i = ids n in (i, (Suc n, AList.update i (NumberNode i x) ns)))"
| "buildNode ids (VBoolean b) (n, ns) =
     (let i = ids n in (i, (Suc n, AList.update i (BooleanNode i b) ns)))"
| "buildNode ids (VString s) (n, ns) =
     (let i = ids n in (i, (Suc n, AList.update i (StringNode i s) ns)))"
| "buildItems ids [] st = ([], st)"
| "buildItems ids (v # vs) st =
     (let (c, st') = buildNode ids v st;
          (cs, st'') = buildItems ids vs st'
      in (c # cs, st''))"
| "buildEntries ids [] st = ([], st)"
| "buildEntries ids ((k, v) # kvs) st =
     (let (c, st') = buildNode ids v st;
          (es, st'') = buildEntries ids kvs st'
      in (Entry k c # es, st''))"

definition buildDocumentFromValue :: "(nat \<Rightarrow> NodeId) \<Rightarrow> jsvalue \<Rightarrow> DocumentState" where
  "buildDocumentFromValue ids v =
     (let (r, (n, ns)) = buildNode ids v (0, []) in \<lparr>rootId = r, nodes = ns\<rparr>)"

text \<open>
  The recursions over the node map follow child ids, so on a map with a cycle they do not
  return.  They take the recursion depth allowed as fuel, and \<open>None\<close> is "does not return".
\<close>

fun buildValue :: "nat \<Rightarrow> DocumentState \<Rightarrow> NodeId \<Rightarrow> jsvalue option" where
  "buildValue 0 d nodeId = None"
| "buildValue (Suc fuel) d nodeId =
     (case map_of (nodes d) nodeId of
        None \<Rightarrow> Some VNull
      | Some node \<Rightarrow>
          (case node of
             ObjectNode i es \<Rightarrow>
               map_option VObject
                 (forEachM
                    (\<lambda>e obj. map_option (setProperty obj (key e)) (buildValue fuel d (childId e)))
                    es [])
           | ArrayNode i its \<Rightarrow> map_option VArray (mapM (buildValue fuel d) its)
           | StringNode i s \<Rightarrow> Some (VString s)
           | NumberNode i x \<Rightarrow> Some (VNumber x)
           | BooleanNode i b \<Rightarrow> Some (VBoolean b)
           | NullNode i \<Rightarrow> Some VNull))"

definition documentToJson :: "nat \<Rightarrow> DocumentState \<Rightarrow> jsvalue option" where
  "documentToJson fuel d = buildValue fuel d (rootId d)"

definition formatJson :: "'k runtime \<Rightarrow> jsvalue \<Rightarrow> jsnumber \<Rightarrow> string" where
  "formatJson rt v ind = JSON_stringify rt v (Some ind)"

definition minifyJson :: "'k runtime \<Rightarrow> jsvalue \<Rightarrow> string" where
  "minifyJson rt v = JSON_stringify rt v None"

section \<open>History snapshots, parent links and anchors\<close>

text \<open>\<open>structuredClone\<close> copies a document; a value of the model is its own copy.\<close>

definition snapshotState :: "EditorState \<Rightarrow> HistoryEntry" where
  "snapshotState state =
     \<lparr>h_doc = doc state,
      h_rawText = rawText state,
      h_expanded = expanded state,
      h_selectedId = selectedId state,
      h_preSearchExpanded = preSearchExpanded state,
      h_anchorPath = anchorPath state\<rparr>"

text \<open>\<open>Object.values(doc.nodes)\<close> in record order; a later writer of \<open>parents[c]\<close>
  overwrites an earlier one.\<close>

definition buildParentMap :: "DocumentState \<Rightarrow> (NodeId \<times> NodeId) list" where
  "buildParentMap d =
     fold (\<lambda>(k, node) parents.
             case node of
               ObjectNode i es \<Rightarrow> fold (\<lambda>e ps. AList.update (childId e) i ps) es parents
             | ArrayNode i its \<Rightarrow> fold (\<lambda>c ps. AList.update c i ps) its parents
             | _ \<Rightarrow> parents)
          (nodes d) []"

text \<open>The loop \<open>while (current) { expanded.add(current); current = parents[current] }\<close>;
  \<open>current\<close> is \<open>None\<close> when it is \<open>undefined\<close>.\<close>

fun expandAncestors ::
  "nat \<Rightarrow> NodeId option \<Rightarrow> (NodeId \<times> NodeId) list \<Rightarrow> NodeId list \<Rightarrow> NodeId list option" where
  "expandAncestors 0 current parents expd = None"
| "expandAncestors (Suc fuel) current parents expd =
     (case current of
        None \<Rightarrow> Some expd
      | Some c \<Rightarrow>
          if truthy c then expandAncestors fuel (map_of parents c) parents (setAdd c expd)
          else Some expd)"

text \<open>The loop of \<open>buildAnchorPath\<close>: \<open>while (current) { path.push(current); current =
  parents[current] }\<close>.\<close>

fun anchorWalk ::
  "nat \<Rightarrow> NodeId option \<Rightarrow> (NodeId \<times> NodeId) list \<Rightarrow> NodeId list \<Rightarrow> NodeId list option" where
  "anchorWalk 0 current parents path = None"
| "anchorWalk (Suc fuel) current parents path =
     (case current of
        None \<Rightarrow> Some path
      | Some c \<Rightarrow>
          if truthy c then anchorWalk fuel (map_of parents c) parents (path @ [c])
          else Some path)"

definition buildAnchorPath :: "nat \<Rightarrow> DocumentState \<Rightarrow> NodeId \<Rightarrow> NodeId list option" where
  "buildAnchorPath fuel d targetId =
     (case anchorWalk fuel (Some targetId) (buildParentMap d) [] of
        None \<Rightarrow> None
      | Some path \<Rightarrow>
          (let result = rev path
           in Some (if result = [] \<or> hd result \<noteq> rootId d then [] else result)))"

definition resolveAnchorPath :: "nat \<Rightarrow> DocumentState \<Rightarrow> NodeId list \<Rightarrow> NodeId list option" where
  "resolveAnchorPath fuel d anchor =
     (case at_index anchor (int (length anchor) - 1) of
        None \<Rightarrow> Some [rootId d]
      | Some targetId \<Rightarrow>
          if \<not> truthy targetId then Some [rootId d]
          else (case buildAnchorPath fuel d targetId of
                  None \<Rightarrow> None
                | Some path \<Rightarrow> Some (if path \<noteq> [] then path else [rootId d])))"

section \<open>Search\<close>

fun visit ::
  "nat \<Rightarrow> 'k runtime \<Rightarrow> DocumentState \<Rightarrow> string \<Rightarrow> NodeId \<Rightarrow> NodeId list \<Rightarrow> NodeId list option" where
  "visit 0 rt d lower nodeId matches = None"
| "visit (Suc fuel) rt d lower nodeId matches =
     (case map_of (nodes d) nodeId of
        None \<Rightarrow> Some matches
      | Some node \<Rightarrow>
          (case node of
             ObjectNode i es \<Rightarrow>
               forEachM
                 (\<lambda>e m. visit fuel rt d lower (childId e)
                          (if js_includes (toLowerCase rt (key e)) lower then m @ [childId e] else m))
                 es matches
           | ArrayNode i its \<Rightarrow> forEachM (\<lambda>c m. visit fuel rt d lower c m) its matches
           | _ \<Rightarrow>
               (let valueString =
                      (case node of
                         NullNode i \<Rightarrow> ''null''
                       | StringNode i s \<Rightarrow> s
                       | NumberNode i x \<Rightarrow> numberToString rt x
                       | BooleanNode i b \<Rightarrow> (if b then ''true'' else ''false'')
                       | _ \<Rightarrow> [])
                in Some (if js_includes (toLowerCase rt valueString) lower
                         then matches @ [node_id node] else matches))))"

definition findSearchMatches ::
  "nat \<Rightarrow> 'k runtime \<Rightarrow> DocumentState \<Rightarrow> string \<Rightarrow> NodeId \<Rightarrow> NodeId list option" where
  "findSearchMatches fuel rt d query start = visit fuel rt d (toLowerCase rt query) start []"

definition applySearch ::
  "nat \<Rightarrow> 'k runtime \<Rightarrow> EditorState \<Rightarrow> DocumentState option \<Rightarrow> NodeId list option \<Rightarrow>
   EditorState option" where
  "applySearch fuel rt state docOverride anchorOverride =
     (let d' = (case docOverride of Some d \<Rightarrow> Some d | None \<Rightarrow> doc state) in
      case d' of
        None \<Rightarrow>
          Some (state\<lparr>searchMatches := [], activeMatch := -1,
                      anchorPath := (case anchorOverride of Some a \<Rightarrow> a | None \<Rightarrow> anchorPath state)\<rparr>)
      | Some d \<Rightarrow>
          if \<not> truthy (trim rt (searchQuery state)) then
            Some (state\<lparr>searchMatches := [], activeMatch := -1,
                        anchorPath := (case anchorOverride of Some a \<Rightarrow> a | None \<Rightarrow> anchorPath state)\<rparr>)
          else
            (let anchor = (case anchorOverride of Some a \<Rightarrow> a | None \<Rightarrow> anchorPath state);
                 anchorRoot = (case at_index anchor (int (length anchor) - 1) of
                                 Some r \<Rightarrow> r | None \<Rightarrow> rootId d)
             in case findSearchMatches fuel rt d (trim rt (searchQuery state)) anchorRoot of
                  None \<Rightarrow> None
                | Some matches \<Rightarrow>
                    (let currentActiveId = at_index (searchMatches state) (activeMatch state);
                         nextActiveIndex =
                           (case currentActiveId of
                              Some a \<Rightarrow> if truthy a then indexOf matches a else -1
                            | None \<Rightarrow> -1);
                         active = (if nextActiveIndex \<ge> 0 then nextActiveIndex
                                   else if matches \<noteq> [] then 0 else -1);
                         exp0 = newSet (expanded state);
                         parents = buildParentMap d
                     in case (case at_index matches active of
                                Some m \<Rightarrow>
                                  if truthy m then expandAncestors fuel (Some m) parents exp0
                                  else Some exp0
                              | None \<Rightarrow> Some exp0) of
                          None \<Rightarrow> None
                        | Some exp1 \<Rightarrow>
                            Some (state\<lparr>searchMatches := matches, activeMatch := active,
                                        expanded := fold setAdd anchor exp1,
                                        anchorPath := anchor\<rparr>))))"

section \<open>History\<close>

definition withHistory :: "EditorState \<Rightarrow> EditorState \<Rightarrow> bool \<Rightarrow> EditorState" where
  "withHistory state next push =
     (if \<not> push then next
      else next\<lparr>undoStack := take 50 (snapshotState state # undoStack state), redoStack := []\<rparr>)"

definition finalizeDocumentChange ::
  "nat \<Rightarrow> 'k runtime \<Rightarrow> EditorState \<Rightarrow> DocumentState \<Rightarrow> NodeId option \<Rightarrow> EditorState option" where
  "finalizeDocumentChange fuel rt state d focusId =
     (case documentToJson fuel d of
        None \<Rightarrow> None
      | Some v \<Rightarrow>
          (let formatted = formatJson rt v (indent state) in
           case resolveAnchorPath fuel d (anchorPath state) of
             None \<Rightarrow> None
           | Some nextAnchorPath \<Rightarrow>
               (case applySearch fuel rt
                       (state\<lparr>doc := Some d,
                              rawText := formatted,
                              lastValidText := formatted,
                              parseError := None,
                              selectedId := (case focusId of Some f \<Rightarrow> Some f | None \<Rightarrow> selectedId state),
                              preSearchExpanded := preSearchExpanded state,
                              anchorPath := nextAnchorPath\<rparr>)
                       (Some d) (Some nextAnchorPath) of
                  None \<Rightarrow> None
                | Some base \<Rightarrow> Some (withHistory state base True))))"

section \<open>Document operations\<close>

datatype ParentType = ParentObject | ParentArray

datatype SortScope = ScopeSelected | ScopeAll

definition nodeType :: "JsonNode \<Rightarrow> NodeType" where
  "nodeType node =
     (case node of
        ObjectNode i es \<Rightarrow> TObject
      | ArrayNode i its \<Rightarrow> TArray
      | StringNode i s \<Rightarrow> TString
      | NumberNode i x \<Rightarrow> TNumber
      | BooleanNode i b \<Rightarrow> TBoolean
      | NullNode i \<Rightarrow> TNull)"

text \<open>The child ids a node refers to, in order.\<close>

definition childIds :: "JsonNode \<Rightarrow> NodeId list" where
  "childIds node =
     (case node of
        ObjectNode i es \<Rightarrow> map childId es
      | ArrayNode i its \<Rightarrow> its
      | _ \<Rightarrow> [])"

text \<open>The node \<open>addNodeToDocument\<close> allocates for a type.\<close>

definition defaultNode :: "NodeType \<Rightarrow> NodeId \<Rightarrow> JsonNode" where
  "defaultNode t i =
     (case t of
        TObject \<Rightarrow> ObjectNode i []
      | TArray \<Rightarrow> ArrayNode i []
      | TString \<Rightarrow> StringNode i []
      | TNumber \<Rightarrow> NumberNode i (Finite 0)
      | TBoolean \<Rightarrow> BooleanNode i False
      | TNull \<Rightarrow> NullNode i)"

text \<open>
  \<open>newId\<close> is what the call of \<open>createId\<close> returns.  \<open>doc.nodes[childId] = newNode\<close>
  comes before the push onto the parent: when the drawn id is the parent's, the record
  then holds the new node under that id and the push changes an object no longer in it.
\<close>

definition addNodeToDocument ::
  "nat \<Rightarrow> 'k runtime \<Rightarrow> NodeId \<Rightarrow> EditorState \<Rightarrow> NodeId \<Rightarrow> ParentType \<Rightarrow> string option \<Rightarrow>
   NodeType \<Rightarrow> EditorState option" where
  "addNodeToDocument fuel rt newId state parentId parentType k newType =
     (case doc state of
        None \<Rightarrow> Some state
      | Some d \<Rightarrow>
          (case map_of (nodes d) parentId of
             None \<Rightarrow> Some state
           | Some parent \<Rightarrow>
               (let ns1 = AList.update newId (defaultNode newType newId) (nodes d) in
                if parentType = ParentObject then
                  (case parent of
                     ObjectNode pid es \<Rightarrow>
                       (case k of
                          None \<Rightarrow>
                            Some (state\<lparr>notice :=
                              Some (Notice NError ''Key is required for object properties.'')\<rparr>)
                        | Some k' \<Rightarrow>
                            if \<not> truthy k' \<or> \<not> truthy (trim rt k') then
                              Some (state\<lparr>notice :=
                                Some (Notice NError ''Key is required for object properties.'')\<rparr>)
                            else if \<exists>e \<in> set es. key e = trim rt k' then
                              Some (state\<lparr>notice :=
                                Some (Notice NError ''Duplicate key inside this object.'')\<rparr>)
                            else
                              finalizeDocumentChange fuel rt state
                                (d\<lparr>nodes :=
                                     (if newId = parentId then ns1
                                      else AList.update parentId
                                             (ObjectNode pid (es @ [Entry (trim rt k') newId])) ns1)\<rparr>)
                                (Some newId))
                   | _ \<Rightarrow> Some state)
                else
                  (case parent of
                     ArrayNode pid its \<Rightarrow>
                       finalizeDocumentChange fuel rt state
                         (d\<lparr>nodes :=
                              (if newId = parentId then ns1
                               else AList.update parentId (ArrayNode pid (its @ [newId])) ns1)\<rparr>)
                         (Some newId)
                   | _ \<Rightarrow> Some state))))"

text \<open>\<open>removeSubtree\<close> reads the node, removes the subtrees of its children in order and
  deletes the node last.\<close>

fun removeSubtree :: "nat \<Rightarrow> NodeMap \<Rightarrow> NodeId \<Rightarrow> NodeMap option" where
  "removeSubtree 0 ns i = None"
| "removeSubtree (Suc fuel) ns i =
     (case map_of ns i of
        None \<Rightarrow> Some ns
      | Some node \<Rightarrow>
          (case forEachM (\<lambda>c s. removeSubtree fuel s c) (childIds node) ns of
             None \<Rightarrow> None
           | Some ns' \<Rightarrow> Some (AList.delete i ns')))"

definition withoutChild :: "JsonNode \<Rightarrow> NodeId \<Rightarrow> JsonNode" where
  "withoutChild parent c =
     (case parent of
        ObjectNode i es \<Rightarrow> ObjectNode i (filter (\<lambda>e. childId e \<noteq> c) es)
      | ArrayNode i its \<Rightarrow> ArrayNode i (filter (\<lambda>x. x \<noteq> c) its)
      | _ \<Rightarrow> parent)"

text \<open>\<open>parent\<close> is read before the removal; filtering its sequence afterwards changes the
  record only if the parent is still in it.\<close>

definition deleteNode ::
  "nat \<Rightarrow> 'k runtime \<Rightarrow> EditorState \<Rightarrow> NodeId \<Rightarrow> NodeId \<Rightarrow> EditorState option" where
  "deleteNode fuel rt state parentId c =
     (case doc state of
        None \<Rightarrow> Some state
      | Some d \<Rightarrow>
          (case map_of (nodes d) parentId of
             None \<Rightarrow> Some state
           | Some parent \<Rightarrow>
               (case removeSubtree fuel (nodes d) c of
                  None \<Rightarrow> None
                | Some ns1 \<Rightarrow>
                    finalizeDocumentChange fuel rt state
                      (d\<lparr>nodes :=
                           (if map_of ns1 parentId = None then ns1
                            else AList.update parentId (withoutChild parent c) ns1)\<rparr>)
                      (Some parentId))))"

definition moveArrayItem ::
  "nat \<Rightarrow> 'k runtime \<Rightarrow> EditorState \<Rightarrow> NodeId \<Rightarrow> NodeId \<Rightarrow> int \<Rightarrow> EditorState option" where
  "moveArrayItem fuel rt state parentId c direction =
     (case doc state of
        None \<Rightarrow> Some state
      | Some d \<Rightarrow>
          (case map_of (nodes d) parentId of
             Some (ArrayNode pid its) \<Rightarrow>
               (let index = indexOf its c in
                if index = -1 then Some state
                else
                  (let target = index + direction in
                   if target < 0 \<or> target \<ge> int (length its) then Some state
                   else
                     (let moved = its ! nat index;
                          removed = take (nat index) its @ drop (Suc (nat index)) its;
                          its' = take (nat target) removed @ [moved] @ drop (nat target) removed
                      in finalizeDocumentChange fuel rt state
                           (d\<lparr>nodes := AList.update parentId (ArrayNode pid its') (nodes d)\<rparr>)
                           (Some c))))
           | _ \<Rightarrow> Some state))"

text \<open>\<open>target.key = trimmed\<close> for the first entry that points at the child.\<close>

fun renameFirst :: "NodeId \<Rightarrow> string \<Rightarrow> ObjectEntry list \<Rightarrow> ObjectEntry list" where
  "renameFirst c k [] = []"
| "renameFirst c k (e # es) =
     (if childId e = c then Entry k (childId e) # es else e # renameFirst c k es)"

definition renameKey ::
  "nat \<Rightarrow> 'k runtime \<Rightarrow> EditorState \<Rightarrow> NodeId \<Rightarrow> NodeId \<Rightarrow> string \<Rightarrow> EditorState option" where
  "renameKey fuel rt state parentId c newKey =
     (case doc state of
        None \<Rightarrow> Some state
      | Some d \<Rightarrow>
          (let trimmed = trim rt newKey in
           if \<not> truthy trimmed then
             Some (state\<lparr>notice := Some (Notice NError ''Key cannot be empty.'')\<rparr>)
           else
             (case map_of (nodes d) parentId of
                Some (ObjectNode pid es) \<Rightarrow>
                  if \<exists>e \<in> set es. key e = trimmed \<and> childId e \<noteq> c then
                    Some (state\<lparr>notice :=
                      Some (Notice NError ''Keys must be unique within the object.'')\<rparr>)
                  else if \<not> (\<exists>e \<in> set es. childId e = c) then Some state
                  else
                    finalizeDocumentChange fuel rt state
                      (d\<lparr>nodes :=
                           AList.update parentId (ObjectNode pid (renameFirst c trimmed es)) (nodes d)\<rparr>)
                      (Some c)
              | _ \<Rightarrow> Some state)))"

text \<open>\<open>String(value ?? '')\<close> and \<open>Boolean(value)\<close> on the payload of an edit.\<close>

definition primitiveToString :: "'k runtime \<Rightarrow> primitive \<Rightarrow> string" where
  "primitiveToString rt v =
     (case v of
        PNull \<Rightarrow> []
      | PString s \<Rightarrow> s
      | PNumber x \<Rightarrow> numberToString rt x
      | PBoolean b \<Rightarrow> (if b then ''true'' else ''false''))"

definition primitiveToBoolean :: "primitive \<Rightarrow> bool" where
  "primitiveToBoolean v =
     (case v of
        PNull \<Rightarrow> False
      | PString s \<Rightarrow> s \<noteq> []
      | PNumber x \<Rightarrow> x \<noteq> Finite 0 \<and> x \<noteq> NaN
      | PBoolean b \<Rightarrow> b)"

definition editPrimitive ::
  "nat \<Rightarrow> 'k runtime \<Rightarrow> EditorState \<Rightarrow> NodeId \<Rightarrow> primitive \<Rightarrow> NodeType option \<Rightarrow>
   EditorState option" where
  "editPrimitive fuel rt state nodeId v newType =
     (case doc state of
        None \<Rightarrow> Some state
      | Some d \<Rightarrow>
          (case map_of (nodes d) nodeId of
             None \<Rightarrow> Some state
           | Some node \<Rightarrow>
               if nodeType node = TObject \<or> nodeType node = TArray then Some state
               else
                 (case (case newType of Some t \<Rightarrow> t | None \<Rightarrow> nodeType node) of
                    TString \<Rightarrow>
                      finalizeDocumentChange fuel rt state
                        (d\<lparr>nodes := AList.update nodeId
                                       (StringNode nodeId (primitiveToString rt v)) (nodes d)\<rparr>)
                        (Some nodeId)
                  | TNumber \<Rightarrow>
                      (case v of
                         PNumber x \<Rightarrow>
                           if x = NaN then
                             Some (state\<lparr>notice :=
                               Some (Notice NError ''Numbers must be valid JSON numbers.'')\<rparr>)
                           else
                             finalizeDocumentChange fuel rt state
                               (d\<lparr>nodes := AList.update nodeId (NumberNode nodeId x) (nodes d)\<rparr>)
                               (Some nodeId)
                       | _ \<Rightarrow>
                           Some (state\<lparr>notice :=
                             Some (Notice NError ''Numbers must be valid JSON numbers.'')\<rparr>))
                  | TBoolean \<Rightarrow>
                      finalizeDocumentChange fuel rt state
                        (d\<lparr>nodes := AList.update nodeId
                                       (BooleanNode nodeId (primitiveToBoolean v)) (nodes d)\<rparr>)
                        (Some nodeId)
                  | TNull \<Rightarrow>
                      finalizeDocumentChange fuel rt state
                        (d\<lparr>nodes := AList.update nodeId (NullNode nodeId) (nodes d)\<rparr>)
                        (Some nodeId)
                  | _ \<Rightarrow>
                      finalizeDocumentChange fuel rt state
                        (d\<lparr>nodes := AList.update nodeId node (nodes d)\<rparr>)
                        (Some nodeId))))"

text \<open>\<open>entries.sort((a, b) => a.key.localeCompare(b.key))\<close> is a stable sort by
  collation key; it sorts the node's own array in place before the children are visited.\<close>

fun sortObject :: "nat \<Rightarrow> ('k::linorder) runtime \<Rightarrow> NodeMap \<Rightarrow> NodeId \<Rightarrow> NodeMap option" where
  "sortObject 0 rt ns nodeId = None"
| "sortObject (Suc fuel) rt ns nodeId =
     (case map_of ns nodeId of
        None \<Rightarrow> Some ns
      | Some node \<Rightarrow>
          (case node of
             ObjectNode i es \<Rightarrow>
               (let es' = sort_key (\<lambda>e. collationKey rt (key e)) es
                in forEachM (\<lambda>e s. sortObject fuel rt s (childId e)) es'
                     (AList.update nodeId (ObjectNode i es') ns))
           | ArrayNode i its \<Rightarrow> forEachM (\<lambda>c s. sortObject fuel rt s c) its ns
           | _ \<Rightarrow> Some ns))"

definition sortKeys ::
  "nat \<Rightarrow> ('k::linorder) runtime \<Rightarrow> EditorState \<Rightarrow> SortScope \<Rightarrow> EditorState option" where
  "sortKeys fuel rt state scope =
     (case doc state of
        None \<Rightarrow> Some state
      | Some d \<Rightarrow>
          (case (case scope of
                   ScopeAll \<Rightarrow> sortObject fuel rt (nodes d) (rootId d)
                 | ScopeSelected \<Rightarrow>
                     (case selectedId state of
                        Some s \<Rightarrow> if truthy s then sortObject fuel rt (nodes d) s else Some (nodes d)
                      | None \<Rightarrow> Some (nodes d))) of
             None \<Rightarrow> None
           | Some ns' \<Rightarrow> finalizeDocumentChange fuel rt state (d\<lparr>nodes := ns'\<rparr>) (selectedId state)))"

definition applyParse ::
  "nat \<Rightarrow> 'k runtime \<Rightarrow> (nat \<Rightarrow> NodeId) \<Rightarrow> EditorState \<Rightarrow> string \<Rightarrow> EditorState option" where
  "applyParse fuel rt ids state text =
     (case parseJson rt text of
        Inl err \<Rightarrow> Some (state\<lparr>parseError := Some err\<rparr>)
      | Inr v \<Rightarrow>
          (let d = buildDocumentFromValue ids v;
               formatted = formatJson rt v (indent state);
               base = state\<lparr>doc := Some d,
                            parseError := None,
                            rawText := formatted,
                            lastValidText := formatted,
                            expanded := [rootId d],
                            selectedId := Some (rootId d),
                            anchorPath := [rootId d],
                            preSearchExpanded :=
                              (if truthy (trim rt (searchQuery state)) then Some [rootId d] else None)\<rparr>
           in case applySearch fuel rt base (Some d) (Some [rootId d]) of
                None \<Rightarrow> None
              | Some withSearch \<Rightarrow> Some (withHistory state withSearch True)))"

section \<open>The reducer\<close>

definition undo :: "nat \<Rightarrow> 'k runtime \<Rightarrow> EditorState \<Rightarrow> EditorState option" where
  "undo fuel rt state =
     (case undoStack state of
        [] \<Rightarrow> Some state
      | previous # remaining \<Rightarrow>
          (let redoEntry = snapshotState state;
               restored = state\<lparr>doc := h_doc previous,
                                rawText := h_rawText previous,
                                expanded := newSet (h_expanded previous),
                                selectedId := h_selectedId previous,
                                anchorPath := h_anchorPath previous,
                                undoStack := remaining,
                                redoStack := take 50 (redoEntry # redoStack state),
                                parseError := None,
                                preSearchExpanded := map_option newSet (h_preSearchExpanded previous)\<rparr>
           in applySearch fuel rt restored (doc restored) (Some (anchorPath restored))))"

definition redo :: "nat \<Rightarrow> 'k runtime \<Rightarrow> EditorState \<Rightarrow> EditorState option" where
  "redo fuel rt state =
     (case redoStack state of
        [] \<Rightarrow> Some state
      | nextEntry # remaining \<Rightarrow>
          (let undoEntry = snapshotState state;
               restored = state\<lparr>doc := h_doc nextEntry,
                                rawText := h_rawText nextEntry,
                                expanded := newSet (h_expanded nextEntry),
                                selectedId := h_selectedId nextEntry,
                                anchorPath := h_anchorPath nextEntry,
                                redoStack := remaining,
                                undoStack := take 50 (undoEntry # undoStack state),
                                parseError := None,
                                preSearchExpanded := map_option newSet (h_preSearchExpanded nextEntry)\<rparr>
           in applySearch fuel rt restored (doc restored) (Some (anchorPath restored))))"

text \<open>The actions of the document engine.  The actions for snippets, local storage,
  output mode, indentation, bulk expansion and anchoring are not modelled.\<close>

datatype Action =
    SET_RAW_TEXT string
  | PARSE_TEXT
  | LOAD_TEXT string
  | EDIT_PRIMITIVE NodeId primitive "NodeType option"
  | RENAME_KEY NodeId NodeId string
  | ADD_NODE NodeId ParentType "string option" NodeType
  | DELETE_NODE NodeId NodeId
  | SET_SELECTED "NodeId option"
  | SET_SEARCH_QUERY string
  | SORT_KEYS SortScope
  | MOVE_ARRAY_ITEM NodeId NodeId int
  | UNDO
  | REDO
  | SET_NOTICE "Notice option"

definition setSearchQuery :: "nat \<Rightarrow> 'k runtime \<Rightarrow> EditorState \<Rightarrow> string \<Rightarrow> EditorState option" where
  "setSearchQuery fuel rt state query =
     (let enteringSearch = (\<not> truthy (trim rt (searchQuery state)) \<and> truthy (trim rt query));
          clearingSearch = (truthy (trim rt (searchQuery state)) \<and> \<not> truthy (trim rt query));
          pre1 = (if enteringSearch then Some (newSet (expanded state)) else preSearchExpanded state);
          expanded2 = (case preSearchExpanded state of
                         Some p \<Rightarrow> if clearingSearch then newSet p else expanded state
                       | None \<Rightarrow> expanded state);
          pre2 = (case preSearchExpanded state of
                    Some p \<Rightarrow> if clearingSearch then None else pre1
                  | None \<Rightarrow> pre1)
      in applySearch fuel rt
           (state\<lparr>searchQuery := query, expanded := expanded2, preSearchExpanded := pre2\<rparr>)
           None None)"

text \<open>\<open>ids\<close> are the ids the calls of \<open>createId\<close> return during the transition.\<close>

definition editorReducer ::
  "nat \<Rightarrow> ('k::linorder) runtime \<Rightarrow> (nat \<Rightarrow> NodeId) \<Rightarrow> EditorState \<Rightarrow> Action \<Rightarrow> EditorState option" where
  "editorReducer fuel rt ids state action =
     (case action of
        SET_RAW_TEXT text \<Rightarrow>
          (let next = state\<lparr>rawText := text, parseError := None\<rparr>
           in if autoParse state then applyParse fuel rt ids next text else Some next)
      | PARSE_TEXT \<Rightarrow> applyParse fuel rt ids state (rawText state)
      | LOAD_TEXT text \<Rightarrow> applyParse fuel rt ids state text
      | EDIT_PRIMITIVE nodeId v newType \<Rightarrow> editPrimitive fuel rt state nodeId v newType
      | RENAME_KEY parentId c newKey \<Rightarrow> renameKey fuel rt state parentId c newKey
      | ADD_NODE parentId parentType k newType \<Rightarrow>
          addNodeToDocument fuel rt (ids 0) state parentId parentType k newType
      | DELETE_NODE parentId c \<Rightarrow> deleteNode fuel rt state parentId c
      | SET_SELECTED nodeId \<Rightarrow> Some (state\<lparr>selectedId := nodeId\<rparr>)
      | SET_SEARCH_QUERY query \<Rightarrow> setSearchQuery fuel rt state query
      | SORT_KEYS scope \<Rightarrow> sortKeys fuel rt state scope
      | MOVE_ARRAY_ITEM parentId c direction \<Rightarrow> moveArrayItem fuel rt state parentId c direction
      | UNDO \<Rightarrow> undo fuel rt state
      | REDO \<Rightarrow> redo fuel rt state
      | SET_NOTICE n \<Rightarrow> Some (state\<lparr>notice := n\<rparr>))"

section \<open>Specification vocabulary\<close>

text \<open>\<open>returns f y\<close>: the computation \<open>f\<close> returns \<open>y\<close> once the recursion depth allowed
  is large enough.\<close>

definition returns :: "(nat \<Rightarrow> 'a option) \<Rightarrow> 'a \<Rightarrow> bool" where
  "returns f y \<longleftrightarrow> (\<exists>F0. \<forall>F. F0 \<le> F \<longrightarrow> f F = Some y)"

text \<open>A node map is acyclic when ids can be ranked so that every child ranks below its
  parent.\<close>

definition ranked :: "(NodeId \<Rightarrow> nat) \<Rightarrow> NodeMap \<Rightarrow> bool" where
  "ranked rk ns \<longleftrightarrow> (\<forall>k n. map_of ns k = Some n \<longrightarrow> (\<forall>c \<in> set (childIds n). rk c < rk k))"

definition acyclicNodes :: "NodeMap \<Rightarrow> bool" where
  "acyclicNodes ns \<longleftrightarrow> (\<exists>rk. ranked rk ns)"

text \<open>A record has pairwise distinct keys, and every node is stored under its own id.\<close>

definition recordOk :: "NodeMap \<Rightarrow> bool" where
  "recordOk ns \<longleftrightarrow> distinct (map fst ns) \<and> (\<forall>(k, n) \<in> set ns. node_id n = k)"

definition soundDoc :: "DocumentState \<Rightarrow> bool" where
  "soundDoc d \<longleftrightarrow> recordOk (nodes d) \<and> acyclicNodes (nodes d)"


text \<open>The subtree rooted at an id: the id, when it is in the map, and every id of the map
  reachable from it through child references.\<close>

definition edges :: "NodeMap \<Rightarrow> (NodeId \<times> NodeId) set" where
  "edges ns = {(x, c). \<exists>n. map_of ns x = Some n \<and> c \<in> set (childIds n) \<and> map_of ns c \<noteq> None}"

definition reach :: "NodeMap \<Rightarrow> NodeId \<Rightarrow> NodeId set" where
  "reach ns r = (if map_of ns r = None then {} else (edges ns)\<^sup>* `` {r})"






text \<open>\<open>committed s d s'\<close>: \<open>s'\<close> is what a change of the document of \<open>s\<close> to \<open>d\<close> leaves:
  the new document, the snapshot of \<open>s\<close> pushed on the undo stack (at most 50 entries
  kept), an empty redo stack, no parse error, and the text mirror as the last valid text.\<close>

definition committed :: "EditorState \<Rightarrow> DocumentState \<Rightarrow> EditorState \<Rightarrow> bool" where
  "committed s d s' \<longleftrightarrow>
     doc s' = Some d
     \<and> undoStack s' = take 50 (snapshotState s # undoStack s)
     \<and> redoStack s' = []
     \<and> parseError s' = None
     \<and> notice s' = notice s
     \<and> lastValidText s' = rawText s'"





section \<open>Fixtures for concrete evaluations\<close>

text \<open>A supply of pairwise distinct ids.\<close>

definition sampleIds :: "nat \<Rightarrow> NodeId" where
  "sampleIds n = ''id-'' @ replicate n CHR ''x''"

text \<open>A runtime restricted to ASCII: \<open>trim\<close> removes blanks, tabs and line breaks at both
  ends, \<open>toLowerCase\<close> maps \<open>A\<close>..\<open>Z\<close>, strings collate by code unit, and the parser
  knows one document and reports one error.\<close>

definition asciiSpace :: "char \<Rightarrow> bool" where
  "asciiSpace c = (c \<in> set [CHR '' '', CHR 0x09, CHR 0x0A, CHR 0x0B, CHR 0x0C, CHR 0x0D])"

definition asciiTrim :: "string \<Rightarrow> string" where
  "asciiTrim s = rev (dropWhile asciiSpace (rev (dropWhile asciiSpace s)))"

definition asciiLower :: "string \<Rightarrow> string" where
  "asciiLower s =
     map (\<lambda>c. case map_of (zip ''ABCDEFGHIJKLMNOPQRSTUVWXYZ'' ''abcdefghijklmnopqrstuvwxyz'') c of
                Some l \<Rightarrow> l | None \<Rightarrow> c) s"

definition sampleNumberToString :: "jsnumber \<Rightarrow> string" where
  "sampleNumberToString x =
     (case x of
        Finite r \<Rightarrow> (if r = 0 then ''0'' else if r = 1 then ''1'' else if r = 2 then ''2'' else ''?'')
      | NaN \<Rightarrow> ''NaN''
      | PosInfinity \<Rightarrow> ''Infinity''
      | NegInfinity \<Rightarrow> ''-Infinity'')"

fun sampleStringify :: "jsvalue \<Rightarrow> string" where
  "sampleStringify VNull = ''null''"
| "sampleStringify (VBoolean b) = (if b then ''true'' else ''false'')"
| "sampleStringify (VNumber x) = (case x of Finite r \<Rightarrow> sampleNumberToString x | _ \<Rightarrow> ''null'')"
| "sampleStringify (VString s) = ''\"'' @ s @ ''\"''"
| "sampleStringify (VArray vs) = ''['' @ concat (map (\<lambda>v. sampleStringify v @ '','') vs) @ '']''"
| "sampleStringify (VObject kvs) =
     ''{'' @ concat (map (\<lambda>(k, v). ''\"'' @ k @ ''\":'' @ sampleStringify v @ '','') kvs) @ ''}''"

definition sampleRuntime :: "string runtime" where
  "sampleRuntime =
     \<lparr>JSON_parse = (\<lambda>t. if t = ''{\"a\":1}'' then Inr (VObject [(''a'', VNumber (Finite 1))])
                         else Inl (ErrorObject ''Unexpected token } in JSON at position 6'')),
      JSON_stringify = (\<lambda>v ind. sampleStringify v),
      toLowerCase = asciiLower,
      trim = asciiTrim,
      numberToString = sampleNumberToString,
      collationKey = (\<lambda>s. s)\<rparr>"

definition blankState :: EditorState where
  "blankState =
     \<lparr>rawText = [], lastValidText = [], doc = None, parseError = None, expanded = [],
      selectedId = None, searchQuery = [], searchMatches = [], activeMatch = -1,
      searchFilterOnly = False, outputMode = Pretty, indent = Finite 2, undoStack = [],
      redoStack = [], autoParse = False, autoSaveEnabled = True, snippets = [],
      snippetContents = [], notice = None, preSearchExpanded = None, anchorPath = []\<rparr>"



section \<open>Termination with enough fuel\<close>

lemma returnsI: "(\<And>F. F0 \<le> F \<Longrightarrow> f F = Some y) \<Longrightarrow> returns f y"
  unfolding returns_def by blast

lemma returns_const: "returns (\<lambda>F. Some y) y"
  unfolding returns_def by simp

lemma returns_const_ex: "\<exists>r. returns (\<lambda>F. Some y) r"
  using returns_const by (rule exI)


lemma returns_bind:
  assumes "returns f y" and "returns (\<lambda>F. g F y) z"
  shows "returns (\<lambda>F. case f F of None \<Rightarrow> None | Some y' \<Rightarrow> g F y') z"
proof -
  from assms obtain A B where A: "\<forall>F. A \<le> F \<longrightarrow> f F = Some y" and B: "\<forall>F. B \<le> F \<longrightarrow> g F y = Some z"
    unfolding returns_def by blast
  show ?thesis
    by (rule returnsI[where ?F0.0 = "max A B"]) (simp add: A B)
qed

lemma returns_map_option: "returns f y \<Longrightarrow> returns (\<lambda>F. map_option g (f F)) (g y)"
  unfolding returns_def by (metis option.simps(9))

lemma returns_Suc:
  assumes "returns f y"
  shows "returns (\<lambda>F. case F of 0 \<Rightarrow> None | Suc F' \<Rightarrow> f F') y"
proof -
  from assms obtain A where A: "\<forall>F. A \<le> F \<longrightarrow> f F = Some y"
    unfolding returns_def by blast
  show ?thesis
    by (rule returnsI[where ?F0.0 = "Suc A"]) (auto simp: A split: nat.splits)
qed

lemma returns_forEachM:
  assumes "\<And>x s. x \<in> set xs \<Longrightarrow> P s \<Longrightarrow> returns (\<lambda>F. f F x s) (h x s) \<and> P (h x s)"
    and "P s0"
  shows "returns (\<lambda>F. forEachM (f F) xs s0) (fold h xs s0) \<and> P (fold h xs s0)"
  using assms
proof (induction xs arbitrary: s0)
  case Nil
  then show ?case by (simp add: returns_const)
next
  case (Cons x xs)
  have hd: "returns (\<lambda>F. f F x s0) (h x s0)" and P1: "P (h x s0)"
    using Cons.prems(1)[of x s0] Cons.prems(2) by auto
  have tl: "returns (\<lambda>F. forEachM (f F) xs (h x s0)) (fold h xs (h x s0)) \<and> P (fold h xs (h x s0))"
    by (rule Cons.IH) (use Cons.prems(1) P1 in auto)
  have "returns (\<lambda>F. case f F x s0 of None \<Rightarrow> None | Some s' \<Rightarrow> forEachM (f F) xs s') (fold h xs (h x s0))"
    by (rule returns_bind[OF hd]) (use tl in simp)
  then show ?case using tl by simp
qed

lemma returns_forEachM_ex:
  assumes "\<And>x s. x \<in> set xs \<Longrightarrow> \<exists>s'. returns (\<lambda>F. f F x s) s'"
  shows "\<exists>r. returns (\<lambda>F. forEachM (f F) xs s0) r"
proof -
  define h where "h x s = (SOME s'. returns (\<lambda>F. f F x s) s')" for x s
  have "returns (\<lambda>F. forEachM (f F) xs s0) (fold h xs s0) \<and> True"
    by (rule returns_forEachM[where P = "\<lambda>_. True"]) (use assms h_def in \<open>auto intro: someI_ex\<close>)
  then show ?thesis by blast
qed

lemma returns_mapM:
  assumes "\<And>x. x \<in> set xs \<Longrightarrow> returns (\<lambda>F. f F x) (h x)"
  shows "returns (\<lambda>F. mapM (f F) xs) (map h xs)"
  using assms
proof (induction xs)
  case Nil
  then show ?case by (simp add: returns_const)
next
  case (Cons x xs)
  have hd: "returns (\<lambda>F. f F x) (h x)" using Cons.prems by simp
  have tl: "returns (\<lambda>F. mapM (f F) xs) (map h xs)" using Cons by simp
  have tl': "returns (\<lambda>F. case mapM (f F) xs of None \<Rightarrow> None | Some ys \<Rightarrow> Some (h x # ys)) (h x # map h xs)"
    by (rule returns_bind[OF tl]) (rule returns_const)
  have "returns (\<lambda>F. case f F x of None \<Rightarrow> None
          | Some y \<Rightarrow> (case mapM (f F) xs of None \<Rightarrow> None | Some ys \<Rightarrow> Some (y # ys))) (h x # map h xs)"
    by (rule returns_bind[OF hd]) (rule tl')
  then show ?case by simp
qed

lemma returns_mapM_ex:
  assumes "\<And>x. x \<in> set xs \<Longrightarrow> \<exists>y. returns (\<lambda>F. f F x) y"
  shows "\<exists>ys. returns (\<lambda>F. mapM (f F) xs) ys"
proof -
  define h where "h x = (SOME y. returns (\<lambda>F. f F x) y)" for x
  have "returns (\<lambda>F. mapM (f F) xs) (map h xs)"
    by (rule returns_mapM) (use assms h_def in \<open>auto intro: someI_ex\<close>)
  then show ?thesis by blast
qed



lemma returns_shift:
  assumes "returns (\<lambda>F. f (Suc F)) y" and "f 0 = None"
  shows "returns f y"
proof -
  have "f = (\<lambda>F. case F of 0 \<Rightarrow> None | Suc F' \<Rightarrow> f (Suc F'))"
    by (rule ext) (simp add: assms(2) split: nat.split)
  moreover have "returns (\<lambda>F. case F of 0 \<Rightarrow> None | Suc F' \<Rightarrow> f (Suc F')) y"
    by (rule returns_Suc) (rule assms(1))
  ultimately show ?thesis by simp
qed

lemma returns_eq: "returns f y \<Longrightarrow> f = g \<Longrightarrow> returns g y"
  by simp

lemma buildValue_returns:
  assumes rk: "ranked rk (nodes d)"
  shows "\<exists>v. returns (\<lambda>F. buildValue F d i) v"
proof (induction "rk i" arbitrary: i rule: less_induct)
  case less
  have step: "returns (\<lambda>F. buildValue (Suc F) d i) v \<Longrightarrow> \<exists>v. returns (\<lambda>F. buildValue F d i) v" for v
    using returns_shift[of "\<lambda>F. buildValue F d i" v] by auto
  show ?case
  proof (cases "map_of (nodes d) i")
    case None
    have "returns (\<lambda>F. buildValue (Suc F) d i) VNull"
      by (simp add: None returns_const)
    then show ?thesis by (rule step)
  next
    case (Some node)
    have child: "\<exists>v. returns (\<lambda>F. buildValue F d c) v" if "c \<in> set (childIds node)" for c
      using less[of c] rk Some that unfolding ranked_def by blast
    show ?thesis
    proof (cases node)
      case (ObjectNode j es)
      have "\<exists>r. returns (\<lambda>F. forEachM (\<lambda>e obj. map_option (setProperty obj (key e)) (buildValue F d (childId e))) es []) r"
      proof (rule returns_forEachM_ex)
        fix e s assume "e \<in> set es"
        then obtain v where "returns (\<lambda>F. buildValue F d (childId e)) v"
          using child[of "childId e"] ObjectNode by (auto simp: childIds_def)
        then have "returns (\<lambda>F. map_option (setProperty s (key e)) (buildValue F d (childId e))) (setProperty s (key e) v)"
          by (rule returns_map_option)
        then show "\<exists>s'. returns (\<lambda>F. map_option (setProperty s (key e)) (buildValue F d (childId e))) s'" ..
      qed
      then obtain r where "returns (\<lambda>F. forEachM (\<lambda>e obj. map_option (setProperty obj (key e)) (buildValue F d (childId e))) es []) r" ..
      then have "returns (\<lambda>F. map_option VObject (forEachM (\<lambda>e obj. map_option (setProperty obj (key e)) (buildValue F d (childId e))) es [])) (VObject r)"
        by (rule returns_map_option)
      then have "returns (\<lambda>F. buildValue (Suc F) d i) (VObject r)"
        by (simp add: Some ObjectNode)
      then show ?thesis by (rule step)
    next
      case (ArrayNode j its)
      have "\<exists>r. returns (\<lambda>F. mapM (buildValue F d) its) r"
        by (rule returns_mapM_ex[where f = "\<lambda>F. buildValue F d"]) (use child ArrayNode in \<open>auto simp: childIds_def\<close>)
      then obtain r where "returns (\<lambda>F. mapM (buildValue F d) its) r" ..
      then have "returns (\<lambda>F. map_option VArray (mapM (buildValue F d) its)) (VArray r)"
        by (rule returns_map_option)
      then have "returns (\<lambda>F. buildValue (Suc F) d i) (VArray r)"
        by (simp add: Some ArrayNode)
      then show ?thesis by (rule step)
    next
      case (StringNode j s)
      have "returns (\<lambda>F. buildValue (Suc F) d i) (VString s)"
        by (simp add: Some StringNode returns_const)
      then show ?thesis by (rule step)
    next
      case (NumberNode j x)
      have "returns (\<lambda>F. buildValue (Suc F) d i) (VNumber x)"
        by (simp add: Some NumberNode returns_const)
      then show ?thesis by (rule step)
    next
      case (BooleanNode j b)
      have "returns (\<lambda>F. buildValue (Suc F) d i) (VBoolean b)"
        by (simp add: Some BooleanNode returns_const)
      then show ?thesis by (rule step)
    next
      case (NullNode j)
      have "returns (\<lambda>F. buildValue (Suc F) d i) VNull"
        by (simp add: Some NullNode returns_const)
      then show ?thesis by (rule step)
    qed
  qed
qed

lemma visit_returns:
  assumes rk: "ranked rk (nodes d)"
  shows "\<exists>r. returns (\<lambda>F. visit F rt d lower i m) r"
proof (induction "rk i" arbitrary: i m rule: less_induct)
  case less
  have step: "returns (\<lambda>F. visit (Suc F) rt d lower i m) v \<Longrightarrow> \<exists>v. returns (\<lambda>F. visit F rt d lower i m) v" for v
    using returns_shift[of "\<lambda>F. visit F rt d lower i m" v] by auto
  show ?case
  proof (cases "map_of (nodes d) i")
    case None
    have "returns (\<lambda>F. visit (Suc F) rt d lower i m) m"
      by (simp add: None returns_const)
    then show ?thesis by (rule step)
  next
    case (Some node)
    have child: "\<exists>v. returns (\<lambda>F. visit F rt d lower c m') v" if "c \<in> set (childIds node)" for c m'
      using less[of c m'] rk Some that unfolding ranked_def by blast
    show ?thesis
    proof (cases node)
      case (ObjectNode j es)
      have "\<exists>r. returns (\<lambda>F. forEachM (\<lambda>e m. visit F rt d lower (childId e)
                          (if js_includes (toLowerCase rt (key e)) lower then m @ [childId e] else m)) es m) r"
        by (rule returns_forEachM_ex) (use child ObjectNode in \<open>auto simp: childIds_def\<close>)
      then obtain r where "returns (\<lambda>F. forEachM (\<lambda>e m. visit F rt d lower (childId e)
                          (if js_includes (toLowerCase rt (key e)) lower then m @ [childId e] else m)) es m) r" ..
      then have "returns (\<lambda>F. visit (Suc F) rt d lower i m) r"
        by (simp add: Some ObjectNode)
      then show ?thesis by (rule step)
    next
      case (ArrayNode j its)
      have "\<exists>r. returns (\<lambda>F. forEachM (\<lambda>c m. visit F rt d lower c m) its m) r"
        by (rule returns_forEachM_ex) (use child ArrayNode in \<open>auto simp: childIds_def\<close>)
      then obtain r where "returns (\<lambda>F. forEachM (\<lambda>c m. visit F rt d lower c m) its m) r" ..
      then have "returns (\<lambda>F. visit (Suc F) rt d lower i m) r"
        by (simp add: Some ArrayNode)
      then show ?thesis by (rule step)
    next
      case (StringNode j s)
      have "\<exists>r. returns (\<lambda>F. visit (Suc F) rt d lower i m) r"
        by (simp add: Some StringNode returns_const_ex)
      then show ?thesis using step by blast
    next
      case (NumberNode j x)
      have "\<exists>r. returns (\<lambda>F. visit (Suc F) rt d lower i m) r"
        by (simp add: Some NumberNode returns_const_ex)
      then show ?thesis using step by blast
    next
      case (BooleanNode j b)
      have "\<exists>r. returns (\<lambda>F. visit (Suc F) rt d lower i m) r"
        by (simp add: Some BooleanNode returns_const_ex)
      then show ?thesis using step by blast
    next
      case (NullNode j)
      have "\<exists>r. returns (\<lambda>F. visit (Suc F) rt d lower i m) r"
        by (simp add: Some NullNode returns_const_ex)
      then show ?thesis using step by blast
    qed
  qed
qed

section \<open>Reading a document back\<close>


lemma length_splitLines: "length (splitLines s) = Suc (count_list s (CHR 0x0A))"
  by (induction s) (auto split: list.splits)

lemma splitLines_nonempty: "splitLines s \<noteq> []"
  using length_splitLines[of s] by auto

lemma last_splitLines: "last (splitLines s) = rev (takeWhile (\<lambda>c. c \<noteq> CHR 0x0A) (rev s))"
proof (induction s)
  case Nil
  then show ?case by simp
next
  case (Cons c cs)
  show ?case
  proof (cases "c = CHR 0x0A")
    case True
    then show ?thesis using Cons splitLines_nonempty[of cs] by (simp add: takeWhile_append)
  next
    case False
    obtain l ls where sp: "splitLines cs = l # ls"
      using splitLines_nonempty[of cs] by (cases "splitLines cs") auto
    show ?thesis
    proof (cases "ls = []")
      case True
      then have "count_list cs (CHR 0x0A) = 0"
        using length_splitLines[of cs] sp by simp
      then have none: "CHR 0x0A \<notin> set cs" by (simp add: count_list_0_iff)
      then have tw: "takeWhile (\<lambda>c. c \<noteq> CHR 0x0A) (rev cs) = rev cs"
        by (auto intro: takeWhile_eq_all_conv[THEN iffD2])
      have "l = rev (takeWhile (\<lambda>c. c \<noteq> CHR 0x0A) (rev cs))"
        using Cons sp True by simp
      then have l: "l = cs" by (simp add: tw)
      have rhs: "rev (takeWhile (\<lambda>c. c \<noteq> CHR 0x0A) (rev (c # cs))) = c # cs"
        using none False by (simp add: takeWhile_append tw)
      have lhs: "last (splitLines (c # cs)) = c # cs"
        using sp True False l by simp
      show ?thesis by (simp only: lhs rhs)
    next
      case F2: False
      then have "count_list cs (CHR 0x0A) \<noteq> 0"
        using length_splitLines[of cs] sp by (cases ls) auto
      then have some: "CHR 0x0A \<in> set cs" by (simp add: count_list_0_iff)
      then show ?thesis using Cons sp F2 False by (auto simp: takeWhile_append)
    qed
  qed
qed

lemma getLineColumn_eq:
  "getLineColumn text index =
     (1 + count_list (take index text) (CHR 0x0A),
      1 + length (takeWhile (\<lambda>c. c \<noteq> CHR 0x0A) (rev (take index text))))"
  by (simp add: getLineColumn_def Let_def length_splitLines last_splitLines)



section \<open>Parent links, anchors and search return on sound documents\<close>

lemma returnsD: "returns f y \<Longrightarrow> \<exists>F0. \<forall>F. F0 \<le> F \<longrightarrow> f F = Some y"
  unfolding returns_def .

lemma map_of_fold_update_entries:
  "map_of (fold (\<lambda>e ps. AList.update (childId e) i ps) es ps0) c = Some p \<Longrightarrow>
     map_of ps0 c = Some p \<or> (p = i \<and> c \<in> childId ` set es)"
  by (induction es arbitrary: ps0) (fastforce simp: update_conv' split: if_splits)+

lemma map_of_fold_update_items:
  "map_of (fold (\<lambda>c ps. AList.update c i ps) its ps0) c = Some p \<Longrightarrow>
     map_of ps0 c = Some p \<or> (p = i \<and> c \<in> set its)"
  by (induction its arbitrary: ps0) (fastforce simp: update_conv' split: if_splits)+

lemma parent_fold_sound:
  "map_of (fold (\<lambda>(k, node) parents.
             case node of
               ObjectNode i es \<Rightarrow> fold (\<lambda>e ps. AList.update (childId e) i ps) es parents
             | ArrayNode i its \<Rightarrow> fold (\<lambda>c ps. AList.update c i ps) its parents
             | _ \<Rightarrow> parents) xs ps0) c = Some p \<Longrightarrow>
     map_of ps0 c = Some p \<or> (\<exists>(k, n) \<in> set xs. node_id n = p \<and> c \<in> set (childIds n))"
proof (induction xs arbitrary: ps0)
  case Nil
  then show ?case by simp
next
  case (Cons x xs)
  obtain k n where x: "x = (k, n)" by (cases x)
  let ?ps1 = "(case n of
               ObjectNode i es \<Rightarrow> fold (\<lambda>e ps. AList.update (childId e) i ps) es ps0
             | ArrayNode i its \<Rightarrow> fold (\<lambda>c ps. AList.update c i ps) its ps0
             | _ \<Rightarrow> ps0)"
  from Cons.prems have "map_of ?ps1 c = Some p \<or> (\<exists>(k, n) \<in> set xs. node_id n = p \<and> c \<in> set (childIds n))"
    using Cons.IH[of ?ps1] by (simp add: x)
  moreover have "map_of ps0 c = Some p \<or> (node_id n = p \<and> c \<in> set (childIds n))" if "map_of ?ps1 c = Some p"
    using that map_of_fold_update_entries map_of_fold_update_items
    by (cases n) (fastforce simp: childIds_def)+
  ultimately show ?case by (auto simp: x)
qed

lemma buildParentMap_sound:
  assumes "recordOk (nodes d)" and "map_of (buildParentMap d) c = Some p"
  shows "\<exists>n. map_of (nodes d) p = Some n \<and> c \<in> set (childIds n)"
proof -
  from parent_fold_sound[OF assms(2)[unfolded buildParentMap_def]]
  obtain k n where kn: "(k, n) \<in> set (nodes d)" "node_id n = p" "c \<in> set (childIds n)" by auto
  then have "k = p" using assms(1) unfolding recordOk_def by auto
  then have "map_of (nodes d) p = Some n" using kn assms(1) unfolding recordOk_def by simp
  then show ?thesis using kn by blast
qed

lemma rank_le_sum:
  assumes "map_of ns k = Some n"
  shows "(rk k :: nat) \<le> sum_list (map (rk \<circ> fst) ns)"
proof -
  have "(k, n) \<in> set ns" using assms by (rule map_of_SomeD)
  then have "rk k \<in> set (map (rk \<circ> fst) ns)" by force
  then show ?thesis by (simp add: member_le_sum_list)
qed

lemma expandAncestors_None: "returns (\<lambda>F. expandAncestors F None ps acc) acc"
  by (rule returns_shift) (simp_all add: returns_const)

lemma expandAncestors_key:
  assumes ok: "recordOk (nodes d)" and rk: "ranked rk (nodes d)"
    and key: "map_of (nodes d) c \<noteq> None"
  shows "\<exists>r. returns (\<lambda>F. expandAncestors F (Some c) (buildParentMap d) acc) r"
  using key
proof (induction "sum_list (map (rk \<circ> fst) (nodes d)) - rk c" arbitrary: c acc rule: less_induct)
  case less
  have step: "returns (\<lambda>F. expandAncestors (Suc F) (Some c) (buildParentMap d) acc) v \<Longrightarrow>
      \<exists>r. returns (\<lambda>F. expandAncestors F (Some c) (buildParentMap d) acc) r" for v
    using returns_shift[of "\<lambda>F. expandAncestors F (Some c) (buildParentMap d) acc" v] by auto
  show ?case
  proof (cases "truthy c")
    case False
    then have "returns (\<lambda>F. expandAncestors (Suc F) (Some c) (buildParentMap d) acc) acc"
      by (simp add: returns_const)
    then show ?thesis by (rule step)
  next
    case True
    show ?thesis
    proof (cases "map_of (buildParentMap d) c")
      case None
      have "returns (\<lambda>F. expandAncestors F None (buildParentMap d) (setAdd c acc)) (setAdd c acc)"
        by (rule expandAncestors_None)
      then have "returns (\<lambda>F. expandAncestors (Suc F) (Some c) (buildParentMap d) acc) (setAdd c acc)"
        by (simp add: True None)
      then show ?thesis by (rule step)
    next
      case (Some p)
      from buildParentMap_sound[OF ok Some] obtain n where
        n: "map_of (nodes d) p = Some n" "c \<in> set (childIds n)" by blast
      then have lt: "rk c < rk p" using rk unfolding ranked_def by blast
      have "rk p \<le> sum_list (map (rk \<circ> fst) (nodes d))" using n(1) by (rule rank_le_sum)
      then have "sum_list (map (rk \<circ> fst) (nodes d)) - rk p < sum_list (map (rk \<circ> fst) (nodes d)) - rk c"
        using lt by simp
      from less(1)[OF this, of "setAdd c acc"] n(1)
      obtain r where "returns (\<lambda>F. expandAncestors F (Some p) (buildParentMap d) (setAdd c acc)) r" by auto
      then have "returns (\<lambda>F. expandAncestors (Suc F) (Some c) (buildParentMap d) acc) r"
        by (simp add: True Some)
      then show ?thesis by (rule step)
    qed
  qed
qed

lemma expandAncestors_returns:
  assumes ok: "recordOk (nodes d)" and rk: "ranked rk (nodes d)"
  shows "\<exists>r. returns (\<lambda>F. expandAncestors F cur (buildParentMap d) acc) r"
proof (cases cur)
  case None
  then show ?thesis using expandAncestors_None by blast
next
  case (Some c)
  have step: "returns (\<lambda>F. expandAncestors (Suc F) (Some c) (buildParentMap d) acc) v \<Longrightarrow>
      \<exists>r. returns (\<lambda>F. expandAncestors F (Some c) (buildParentMap d) acc) r" for v
    using returns_shift[of "\<lambda>F. expandAncestors F (Some c) (buildParentMap d) acc" v] by auto
  show ?thesis
  proof (cases "truthy c")
    case False
    then have "returns (\<lambda>F. expandAncestors (Suc F) (Some c) (buildParentMap d) acc) acc"
      by (simp add: returns_const)
    then show ?thesis unfolding Some by (rule step)
  next
    case True
    show ?thesis
    proof (cases "map_of (buildParentMap d) c")
      case None
      have "returns (\<lambda>F. expandAncestors F None (buildParentMap d) (setAdd c acc)) (setAdd c acc)"
        by (rule expandAncestors_None)
      then have "returns (\<lambda>F. expandAncestors (Suc F) (Some c) (buildParentMap d) acc) (setAdd c acc)"
        by (simp add: True None)
      then show ?thesis unfolding Some by (rule step)
    next
      case p: (Some p)
      from buildParentMap_sound[OF ok p] obtain n where "map_of (nodes d) p = Some n" by blast
      then have "map_of (nodes d) p \<noteq> None" by simp
      from expandAncestors_key[OF ok rk this, of "setAdd c acc"]
      obtain r where "returns (\<lambda>F. expandAncestors F (Some p) (buildParentMap d) (setAdd c acc)) r" ..
      then have "returns (\<lambda>F. expandAncestors (Suc F) (Some c) (buildParentMap d) acc) r"
        by (simp add: True p)
      then show ?thesis unfolding Some by (rule step)
    qed
  qed
qed


lemma anchorWalk_None: "returns (\<lambda>F. anchorWalk F None ps acc) acc"
  by (rule returns_shift) (simp_all add: returns_const)

lemma anchorWalk_key:
  assumes ok: "recordOk (nodes d)" and rk: "ranked rk (nodes d)"
    and key: "map_of (nodes d) c \<noteq> None"
  shows "\<exists>r. returns (\<lambda>F. anchorWalk F (Some c) (buildParentMap d) acc) r"
  using key
proof (induction "sum_list (map (rk \<circ> fst) (nodes d)) - rk c" arbitrary: c acc rule: less_induct)
  case less
  have step: "returns (\<lambda>F. anchorWalk (Suc F) (Some c) (buildParentMap d) acc) v \<Longrightarrow>
      \<exists>r. returns (\<lambda>F. anchorWalk F (Some c) (buildParentMap d) acc) r" for v
    using returns_shift[of "\<lambda>F. anchorWalk F (Some c) (buildParentMap d) acc" v] by auto
  show ?case
  proof (cases "truthy c")
    case False
    then have "returns (\<lambda>F. anchorWalk (Suc F) (Some c) (buildParentMap d) acc) acc"
      by (simp add: returns_const)
    then show ?thesis by (rule step)
  next
    case True
    show ?thesis
    proof (cases "map_of (buildParentMap d) c")
      case None
      have "returns (\<lambda>F. anchorWalk F None (buildParentMap d) (acc @ [c])) (acc @ [c])"
        by (rule anchorWalk_None)
      then have "returns (\<lambda>F. anchorWalk (Suc F) (Some c) (buildParentMap d) acc) (acc @ [c])"
        by (simp add: True None)
      then show ?thesis by (rule step)
    next
      case (Some p)
      from buildParentMap_sound[OF ok Some] obtain n where
        n: "map_of (nodes d) p = Some n" "c \<in> set (childIds n)" by blast
      then have lt: "rk c < rk p" using rk unfolding ranked_def by blast
      have "rk p \<le> sum_list (map (rk \<circ> fst) (nodes d))" using n(1) by (rule rank_le_sum)
      then have "sum_list (map (rk \<circ> fst) (nodes d)) - rk p < sum_list (map (rk \<circ> fst) (nodes d)) - rk c"
        using lt by simp
      from less(1)[OF this, of "acc @ [c]"] n(1)
      obtain r where "returns (\<lambda>F. anchorWalk F (Some p) (buildParentMap d) (acc @ [c])) r" by auto
      then have "returns (\<lambda>F. anchorWalk (Suc F) (Some c) (buildParentMap d) acc) r"
        by (simp add: True Some)
      then show ?thesis by (rule step)
    qed
  qed
qed

lemma anchorWalk_returns:
  assumes ok: "recordOk (nodes d)" and rk: "ranked rk (nodes d)"
  shows "\<exists>r. returns (\<lambda>F. anchorWalk F cur (buildParentMap d) acc) r"
proof (cases cur)
  case None
  then show ?thesis using anchorWalk_None by blast
next
  case (Some c)
  have step: "returns (\<lambda>F. anchorWalk (Suc F) (Some c) (buildParentMap d) acc) v \<Longrightarrow>
      \<exists>r. returns (\<lambda>F. anchorWalk F (Some c) (buildParentMap d) acc) r" for v
    using returns_shift[of "\<lambda>F. anchorWalk F (Some c) (buildParentMap d) acc" v] by auto
  show ?thesis
  proof (cases "truthy c")
    case False
    then have "returns (\<lambda>F. anchorWalk (Suc F) (Some c) (buildParentMap d) acc) acc"
      by (simp add: returns_const)
    then show ?thesis unfolding Some by (rule step)
  next
    case True
    show ?thesis
    proof (cases "map_of (buildParentMap d) c")
      case None
      have "returns (\<lambda>F. anchorWalk F None (buildParentMap d) (acc @ [c])) (acc @ [c])"
        by (rule anchorWalk_None)
      then have "returns (\<lambda>F. anchorWalk (Suc F) (Some c) (buildParentMap d) acc) (acc @ [c])"
        by (simp add: True None)
      then show ?thesis unfolding Some by (rule step)
    next
      case p: (Some p)
      from buildParentMap_sound[OF ok p] obtain n where "map_of (nodes d) p = Some n" by blast
      then have "map_of (nodes d) p \<noteq> None" by simp
      from anchorWalk_key[OF ok rk this, of "acc @ [c]"]
      obtain r where "returns (\<lambda>F. anchorWalk F (Some p) (buildParentMap d) (acc @ [c])) r" ..
      then have "returns (\<lambda>F. anchorWalk (Suc F) (Some c) (buildParentMap d) acc) r"
        by (simp add: True p)
      then show ?thesis unfolding Some by (rule step)
    qed
  qed
qed

lemma resolveAnchorPath_returns:
  assumes "soundDoc d"
  shows "\<exists>r. returns (\<lambda>F. resolveAnchorPath F d anchor) r"
proof -
  from assms obtain rk where ok: "recordOk (nodes d)" and rk: "ranked rk (nodes d)"
    unfolding soundDoc_def acyclicNodes_def by blast
  show ?thesis
  proof (cases "at_index anchor (int (length anchor) - 1)")
    case None
    then show ?thesis by (simp add: resolveAnchorPath_def returns_const_ex)
  next
    case (Some t)
    show ?thesis
    proof (cases "truthy t")
      case False
      then show ?thesis by (simp add: resolveAnchorPath_def Some returns_const_ex)
    next
      case True
      from anchorWalk_returns[OF ok rk, of "Some t" "[]"] obtain p where
        p: "returns (\<lambda>F. anchorWalk F (Some t) (buildParentMap d) []) p" ..
      from returnsD[OF p] obtain F0 where
        F0: "\<forall>F. F0 \<le> F \<longrightarrow> anchorWalk F (Some t) (buildParentMap d) [] = Some p" ..
      define r where "r = (let result = rev p; path = (if result = [] \<or> hd result \<noteq> rootId d then [] else result)
                            in if path \<noteq> [] then path else [rootId d])"
      have "returns (\<lambda>F. resolveAnchorPath F d anchor) r"
        by (rule returnsI[where ?F0.0 = F0])
           (simp add: resolveAnchorPath_def buildAnchorPath_def Some True F0 Let_def r_def)
      then show ?thesis by (rule exI)
    qed
  qed
qed

lemma applySearch_frame:
  assumes "applySearch F rt s dO aO = Some s'"
  shows "s' = s\<lparr>searchMatches := searchMatches s', activeMatch := activeMatch s',
                expanded := expanded s', anchorPath := anchorPath s'\<rparr>"
  using assms unfolding applySearch_def
  by (auto simp: Let_def split: option.splits if_splits)

lemma applySearch_returns:
  assumes "\<And>d. (case dO of Some d \<Rightarrow> Some d | None \<Rightarrow> doc s) = Some d \<Longrightarrow> soundDoc d"
  shows "\<exists>s'. returns (\<lambda>F. applySearch F rt s dO aO) s'"
proof (cases "case dO of Some d \<Rightarrow> Some d | None \<Rightarrow> doc s")
  case None
  then show ?thesis by (simp add: applySearch_def returns_const_ex)
next
  case (Some d)
  then have "soundDoc d" by (rule assms)
  then obtain rk where ok: "recordOk (nodes d)" and rk: "ranked rk (nodes d)"
    unfolding soundDoc_def acyclicNodes_def by blast
  show ?thesis
  proof (cases "truthy (trim rt (searchQuery s))")
    case False
    then show ?thesis by (simp add: applySearch_def Some returns_const_ex)
  next
    case True
    define anchor where "anchor = (case aO of Some a \<Rightarrow> a | None \<Rightarrow> anchorPath s)"
    define anchorRoot where "anchorRoot = (case at_index anchor (int (length anchor) - 1) of
                                 Some r \<Rightarrow> r | None \<Rightarrow> rootId d)"
    have "\<exists>m. returns (\<lambda>F. visit F rt d (toLowerCase rt (trim rt (searchQuery s))) anchorRoot []) m"
      by (rule visit_returns[OF rk])
    then obtain matches where
      m: "returns (\<lambda>F. visit F rt d (toLowerCase rt (trim rt (searchQuery s))) anchorRoot []) matches" ..
    from returnsD[OF m] obtain F1 where F1': "\<forall>F. F1 \<le> F \<longrightarrow>
        visit F rt d (toLowerCase rt (trim rt (searchQuery s))) anchorRoot [] = Some matches" ..
    then have F1: "\<forall>F. F1 \<le> F \<longrightarrow>
        findSearchMatches F rt d (trim rt (searchQuery s)) anchorRoot = Some matches"
      unfolding findSearchMatches_def .
    define active where "active =
       (let nextActiveIndex =
              (case at_index (searchMatches s) (activeMatch s) of
                 Some a \<Rightarrow> if truthy a then indexOf matches a else -1
               | None \<Rightarrow> -1)
        in if nextActiveIndex \<ge> 0 then nextActiveIndex else if matches \<noteq> [] then 0 else -1)"
    have "\<exists>e. returns (\<lambda>F. case at_index matches active of
                                Some m \<Rightarrow>
                                  if truthy m then expandAncestors F (Some m) (buildParentMap d) (newSet (expanded s))
                                  else Some (newSet (expanded s))
                              | None \<Rightarrow> Some (newSet (expanded s))) e"
    proof (cases "at_index matches active")
      case None
      then show ?thesis by (simp add: returns_const_ex)
    next
      case (Some m)
      then show ?thesis using expandAncestors_returns[OF ok rk, of "Some m" "newSet (expanded s)"]
        by (cases "truthy m") (simp_all add: returns_const_ex)
    qed
    then obtain e where e: "returns (\<lambda>F. case at_index matches active of
                                Some m \<Rightarrow>
                                  if truthy m then expandAncestors F (Some m) (buildParentMap d) (newSet (expanded s))
                                  else Some (newSet (expanded s))
                              | None \<Rightarrow> Some (newSet (expanded s))) e" ..
    from returnsD[OF e] obtain F2 where F2: "\<forall>F. F2 \<le> F \<longrightarrow> (case at_index matches active of
                                Some m \<Rightarrow>
                                  if truthy m then expandAncestors F (Some m) (buildParentMap d) (newSet (expanded s))
                                  else Some (newSet (expanded s))
                              | None \<Rightarrow> Some (newSet (expanded s))) = Some e" ..
    have "returns (\<lambda>F. applySearch F rt s dO aO)
        (s\<lparr>searchMatches := matches, activeMatch := active,
                expanded := fold setAdd anchor e, anchorPath := anchor\<rparr>)"
      by (rule returnsI[where ?F0.0 = "max F1 F2"])
         (simp add: applySearch_def Let_def F1 F2 Some True anchor_def[symmetric] anchorRoot_def[symmetric]
             active_def[symmetric, unfolded Let_def])
    then show ?thesis by (rule exI)
  qed
qed

section \<open>Subtrees: removal and sorting\<close>



lemma reach_in_dom: "x \<in> reach ns r \<Longrightarrow> map_of ns x \<noteq> None"
proof -
  assume x: "x \<in> reach ns r"
  then have r: "map_of ns r \<noteq> None" and p: "(r, x) \<in> (edges ns)\<^sup>*"
    by (auto simp: reach_def split: if_splits)
  from p show ?thesis
    by (cases rule: rtranclE) (use r in \<open>auto simp: edges_def\<close>)
qed

lemma reach_trans: "c \<in> reach ns r \<Longrightarrow> x \<in> reach ns c \<Longrightarrow> x \<in> reach ns r"
  by (auto simp: reach_def split: if_splits)






























section \<open>Committing a document change\<close>

lemma applySearch_keeps:
  assumes "applySearch F rt s dO aO = Some s'"
  shows "doc s' = doc s" "rawText s' = rawText s" "lastValidText s' = lastValidText s"
    "undoStack s' = undoStack s" "redoStack s' = redoStack s" "parseError s' = parseError s"
    "notice s' = notice s" "selectedId s' = selectedId s" "indent s' = indent s"
    "searchQuery s' = searchQuery s" "autoParse s' = autoParse s"
    "preSearchExpanded s' = preSearchExpanded s"
  by (subst applySearch_frame[OF assms], simp)+

lemma finalize_keeps:
  assumes "finalizeDocumentChange F rt s d focus = Some s'"
  shows "doc s' = Some d"
    and "undoStack s' = take 50 (snapshotState s # undoStack s)"
    and "redoStack s' = []"
    and "parseError s' = None"
    and "notice s' = notice s"
    and "lastValidText s' = rawText s'"
    and "\<exists>v. documentToJson F d = Some v \<and> rawText s' = formatJson rt v (indent s)"
    and "selectedId s' = (case focus of Some f \<Rightarrow> Some f | None \<Rightarrow> selectedId s)"
    and "searchQuery s' = searchQuery s" and "indent s' = indent s" and "autoParse s' = autoParse s"
proof -
  from assms obtain v p base where
    v: "documentToJson F d = Some v"
    and p: "resolveAnchorPath F d (anchorPath s) = Some p"
    and b: "applySearch F rt
              (s\<lparr>doc := Some d, rawText := formatJson rt v (indent s),
                 lastValidText := formatJson rt v (indent s), parseError := None,
                 selectedId := (case focus of Some f \<Rightarrow> Some f | None \<Rightarrow> selectedId s),
                 preSearchExpanded := preSearchExpanded s, anchorPath := p\<rparr>)
              (Some d) (Some p) = Some base"
    and s': "s' = withHistory s base True"
    unfolding finalizeDocumentChange_def by (auto simp: Let_def split: option.splits)
  note k = applySearch_keeps[OF b]
  show "doc s' = Some d" using k(1) by (simp add: s' withHistory_def)
  show "undoStack s' = take 50 (snapshotState s # undoStack s)" by (simp add: s' withHistory_def)
  show "redoStack s' = []" by (simp add: s' withHistory_def)
  show "parseError s' = None" using k(6) by (simp add: s' withHistory_def)
  show "notice s' = notice s" using k(7) by (simp add: s' withHistory_def)
  show "lastValidText s' = rawText s'" using k(2,3) by (simp add: s' withHistory_def)
  show "\<exists>v. documentToJson F d = Some v \<and> rawText s' = formatJson rt v (indent s)"
    using k(2) v by (simp add: s' withHistory_def)
  show "selectedId s' = (case focus of Some f \<Rightarrow> Some f | None \<Rightarrow> selectedId s)"
    using k(8) by (simp add: s' withHistory_def)
  show "searchQuery s' = searchQuery s" using k(10) by (simp add: s' withHistory_def)
  show "indent s' = indent s" using k(9) by (simp add: s' withHistory_def)
  show "autoParse s' = autoParse s" using k(11) by (simp add: s' withHistory_def)
qed

lemma finalize_returns:
  assumes "soundDoc d"
  shows "\<exists>s'. returns (\<lambda>F. finalizeDocumentChange F rt s d focus) s'"
proof -
  from assms obtain rk where rk: "ranked rk (nodes d)"
    unfolding soundDoc_def acyclicNodes_def by blast
  from buildValue_returns[OF rk, of "rootId d"] obtain v where
    v: "returns (\<lambda>F. buildValue F d (rootId d)) v" ..
  from returnsD[OF v] obtain F1 where F1: "\<forall>F. F1 \<le> F \<longrightarrow> documentToJson F d = Some v"
    unfolding documentToJson_def ..
  from resolveAnchorPath_returns[OF assms, of "anchorPath s"] obtain p where
    p: "returns (\<lambda>F. resolveAnchorPath F d (anchorPath s)) p" ..
  from returnsD[OF p] obtain F2 where F2: "\<forall>F. F2 \<le> F \<longrightarrow> resolveAnchorPath F d (anchorPath s) = Some p" ..
  define s1 where "s1 = s\<lparr>doc := Some d, rawText := formatJson rt v (indent s),
                 lastValidText := formatJson rt v (indent s), parseError := None,
                 selectedId := (case focus of Some f \<Rightarrow> Some f | None \<Rightarrow> selectedId s),
                 preSearchExpanded := preSearchExpanded s, anchorPath := p\<rparr>"
  have "\<exists>b. returns (\<lambda>F. applySearch F rt s1 (Some d) (Some p)) b"
    by (rule applySearch_returns) (use assms in simp)
  then obtain b where b: "returns (\<lambda>F. applySearch F rt s1 (Some d) (Some p)) b" ..
  from returnsD[OF b] obtain F3 where F3: "\<forall>F. F3 \<le> F \<longrightarrow> applySearch F rt s1 (Some d) (Some p) = Some b" ..
  have "returns (\<lambda>F. finalizeDocumentChange F rt s d focus) (withHistory s b True)"
    by (rule returnsI[where ?F0.0 = "max F1 (max F2 F3)"])
       (simp add: finalizeDocumentChange_def Let_def F1 F2 F3[unfolded s1_def, simplified])
  then show ?thesis by (rule exI)
qed



















lemma set_childIds_renameFirst: "set (map childId (renameFirst c k es)) = set (map childId es)"
  by (induction es) auto
















lemma finalize_spec2:
  assumes "soundDoc d"
  shows "\<exists>s'. returns (\<lambda>F. finalizeDocumentChange F rt s d focus) s' \<and> committed s d s'
     \<and> selectedId s' = (case focus of Some f \<Rightarrow> Some f | None \<Rightarrow> selectedId s)
     \<and> searchQuery s' = searchQuery s \<and> indent s' = indent s \<and> autoParse s' = autoParse s"
proof -
  from finalize_returns[OF assms, of rt s focus] obtain s' where
    r: "returns (\<lambda>F. finalizeDocumentChange F rt s d focus) s'" ..
  from returnsD[OF r] obtain F0 where "\<forall>F. F0 \<le> F \<longrightarrow> finalizeDocumentChange F rt s d focus = Some s'" ..
  then have f: "finalizeDocumentChange F0 rt s d focus = Some s'" by simp
  have c: "committed s d s'"
    unfolding committed_def using finalize_keeps[OF f] by simp
  show ?thesis
    by (intro exI[of _ s'] conjI) (rule r, rule c, (rule finalize_keeps[OF f])+)
qed



















section \<open>Claims\<close>

text \<open>
  C1 (round trip).  The claim: for every JSON value, \<open>documentToJson\<close> after
  \<open>buildDocumentFromValue\<close> gives back a structurally equal value.  The code loses an
  object key \<open>__proto__\<close>: \<open>buildValue\<close> assigns \<open>obj[entry.key]\<close> on an object literal, and
  for this key the assignment reaches the setter of \<open>Object.prototype\<close> and creates no
  own property.  The value \<open>{"__proto__": 1}\<close>, which \<open>JSON.parse\<close> produces with the key
  as an own property, comes back as \<open>{}\<close>.
\<close>

theorem proto_key_dropped_by_round_trip:
  "documentToJson (Suc (Suc F)) (buildDocumentFromValue sampleIds (VObject [(''__proto__'', VNumber (Finite 1))])) = Some (VObject [])"
  by (simp add: documentToJson_def buildDocumentFromValue_def sampleIds_def setProperty_def Let_def)







text \<open>
  C9 (parse failure is non-destructive).  When the text of a \<open>LOAD_TEXT\<close> or
  \<open>PARSE_TEXT\<close> command fails to parse, the resulting state is the old state with only
  \<open>parseError\<close> set: the document, the last valid text and both history stacks are
  unchanged.  The error carries the parser's message and, when the message reports a
  position, the 1-based line (one more than the line breaks before the position) and
  column (one more than the characters after the last line break before the position).
\<close>

theorem parse_failure_keeps_state:
  assumes "JSON_parse rt text = Inl e"
    and "action = LOAD_TEXT text \<or> (action = PARSE_TEXT \<and> text = rawText state)"
  shows "\<exists>err. editorReducer fuel rt ids state action = Some (state\<lparr>parseError := Some err\<rparr>)
     \<and> doc (state\<lparr>parseError := Some err\<rparr>) = doc state
     \<and> lastValidText (state\<lparr>parseError := Some err\<rparr>) = lastValidText state
     \<and> undoStack (state\<lparr>parseError := Some err\<rparr>) = undoStack state
     \<and> redoStack (state\<lparr>parseError := Some err\<rparr>) = redoStack state
     \<and> message err = (case e of ErrorObject m \<Rightarrow> m | OtherThrown \<Rightarrow> ''Unable to parse JSON'')
     \<and> (case positionMatch (message err) of
           None \<Rightarrow> line err = None \<and> column err = None
         | Some index \<Rightarrow>
             line err = Some (1 + count_list (take index text) (CHR 0x0A))
           \<and> column err = Some (1 + length (takeWhile (\<lambda>c. c \<noteq> CHR 0x0A) (rev (take index text)))))"
proof -
  define msg where "msg = (case e of ErrorObject m \<Rightarrow> m | OtherThrown \<Rightarrow> ''Unable to parse JSON'')"
  define err where "err = (case positionMatch msg of
      Some index \<Rightarrow> \<lparr>message = msg, line = Some (fst (getLineColumn text index)), column = Some (snd (getLineColumn text index))\<rparr>
    | None \<Rightarrow> \<lparr>message = msg, line = None, column = None\<rparr>)"
  have pj: "parseJson rt text = Inl err"
    unfolding parseJson_def err_def msg_def using assms(1)
    by (simp add: Let_def split: option.splits prod.splits)
  have ap: "applyParse fuel rt ids state text = Some (state\<lparr>parseError := Some err\<rparr>)"
    unfolding applyParse_def by (simp add: pj)
  have red: "editorReducer fuel rt ids state action = Some (state\<lparr>parseError := Some err\<rparr>)"
    using assms(2) ap unfolding editorReducer_def by auto
  have m: "message err = msg" unfolding err_def by (simp split: option.splits)
  have lc: "(case positionMatch (message err) of
           None \<Rightarrow> line err = None \<and> column err = None
         | Some index \<Rightarrow>
             line err = Some (1 + count_list (take index text) (CHR 0x0A))
           \<and> column err = Some (1 + length (takeWhile (\<lambda>c. c \<noteq> CHR 0x0A) (rev (take index text)))))"
    unfolding m unfolding err_def by (simp add: getLineColumn_eq split: option.splits)
  have m': "message err = (case e of ErrorObject m \<Rightarrow> m | OtherThrown \<Rightarrow> ''Unable to parse JSON'')"
    using m unfolding msg_def .
  show ?thesis
    by (intro exI[of _ err] conjI) (rule red, simp, simp, simp, simp, rule m', rule lc)
qed

theorem parse_failure_keeps_state_witness:
  "JSON_parse sampleRuntime (''{'' @ [CHR 0x0A] @ ''\"a\":}'') =
      Inl (ErrorObject ''Unexpected token } in JSON at position 6'')
   \<and> (\<exists>err. editorReducer 0 sampleRuntime sampleIds blankState (LOAD_TEXT (''{'' @ [CHR 0x0A] @ ''\"a\":}''))
           = Some (blankState\<lparr>parseError := Some err\<rparr>)
         \<and> message err = ''Unexpected token } in JSON at position 6''
         \<and> line err = Some 2 \<and> column err = Some 5)"
proof -
  let ?t = "''{'' @ [CHR 0x0A] @ ''\"a\":}''"
  have p: "JSON_parse sampleRuntime ?t = Inl (ErrorObject ''Unexpected token } in JSON at position 6'')"
    by (simp add: sampleRuntime_def)
  have pm: "positionMatch ''Unexpected token } in JSON at position 6'' = Some 6"
    by (simp add: matchHere_def isDigit_def digitsValue_def digitValue_def)
  from parse_failure_keeps_state[OF p, of "LOAD_TEXT ?t" blankState 0 sampleIds]
  obtain err where
    r: "editorReducer 0 sampleRuntime sampleIds blankState (LOAD_TEXT ?t) = Some (blankState\<lparr>parseError := Some err\<rparr>)"
    and m: "message err = ''Unexpected token } in JSON at position 6''"
    and lc: "(case positionMatch (message err) of
           None \<Rightarrow> line err = None \<and> column err = None
         | Some index \<Rightarrow>
             line err = Some (1 + count_list (take index ?t) (CHR 0x0A))
           \<and> column err = Some (1 + length (takeWhile (\<lambda>c. c \<noteq> CHR 0x0A) (rev (take index ?t)))))"
    by auto
  have "line err = Some 2 \<and> column err = Some 5"
    using lc unfolding m pm by simp
  then show ?thesis using p r m by blast
qed







end
